theory Spec2Isabelle
  imports Complex_Main "HOL-Library.Multiset"
begin

section \<open>Flare frequency distributions (ffd.py)\<close>

text \<open>
  A shallow embedding of the two classes of \<^verbatim>\<open>ffd.py\<close>: \<^verbatim>\<open>FlareDataset\<close>, a plain
  container, and \<^verbatim>\<open>Flares\<close>, whose constructor merges the datasets and computes the
  detectable exposure time of every event and two cumulative frequency curves.

  Numbers. The arrays of the source hold float64 values. The inputs of a dataset
  (detection limit, exposure time, energies) are finite floats, modelled by the real
  numbers they stand for. Under numpy's default error state a division by zero does not
  raise, it yields \<^verbatim>\<open>inf\<close>, \<^verbatim>\<open>-inf\<close> or \<^verbatim>\<open>nan\<close> (with a warning); these three
  are collapsed into the single value \<open>NonFinite\<close>.

  The constructor is modelled twice. \<open>Flares_init\<close> computes in exact arithmetic: a finite
  result is the real number the formula denotes, without rounding or overflow.
  \<open>Flares_init_f64\<close> rounds every operation of lines 64 to 67 to float64 (round to
  nearest, ties to even, overflow to a non-finite value), which is what decides whether
  two ways of computing the same quantity give the same float.
\<close>

subsection \<open>Values and errors\<close>

datatype npfloat = Fin real | NonFinite

datatype error = ValueError | IndexError

text \<open>
  The three arithmetic operations the constructor applies to values that may be non-finite,
  in exact arithmetic. The right operand of the product and of the quotient is finite at
  every use (\<^verbatim>\<open>expt_total\<close> or an entry of \<^verbatim>\<open>expt_detectable\<close>), so it is a real.
  A non-finite left operand stays non-finite: \<^verbatim>\<open>inf + x\<close>, \<^verbatim>\<open>inf * x\<close>,
  \<^verbatim>\<open>inf / x\<close> are \<^verbatim>\<open>inf\<close>, \<^verbatim>\<open>-inf\<close> or \<^verbatim>\<open>nan\<close> for every finite
  \<^verbatim>\<open>x\<close>, zero included, and \<^verbatim>\<open>inf + inf\<close>, \<^verbatim>\<open>inf - inf\<close> likewise.
\<close>

fun np_add :: "npfloat \<Rightarrow> npfloat \<Rightarrow> npfloat" where
  "np_add (Fin x) (Fin y) = Fin (x + y)"
| "np_add (Fin x) NonFinite = NonFinite"
| "np_add NonFinite y = NonFinite"

fun np_mul :: "npfloat \<Rightarrow> real \<Rightarrow> npfloat" where
  "np_mul (Fin x) y = Fin (x * y)"
| "np_mul NonFinite y = NonFinite"

fun np_div :: "npfloat \<Rightarrow> real \<Rightarrow> npfloat" where
  "np_div (Fin x) y = (if y = 0 then NonFinite else Fin (x / y))"
| "np_div NonFinite y = NonFinite"

subsection \<open>The numpy functions the constructor calls\<close>

text \<open>\<^verbatim>\<open>np.concatenate\<close> raises ValueError ("need at least one array to concatenate")
  on an empty sequence of arrays.\<close>

definition np_concatenate :: "'a list list \<Rightarrow> error + 'a list" where
  "np_concatenate arrs = (if arrs = [] then Inl ValueError else Inr (concat arrs))"

text \<open>\<^verbatim>\<open>np.argsort\<close>: the indices that sort the array. numpy does not promise an order
  among equal keys; the model takes the stable one, and \<open>lookup_any_sorted_order\<close> below
  shows that the choice does not matter to the constructor.\<close>

definition np_argsort :: "real list \<Rightarrow> int list" where
  "np_argsort a = map int (sort_key (\<lambda>i. a ! i) [0..<length a])"

text \<open>Indexing an array by an integer: a negative index counts from the end, an index
  outside \<open>[-len, len)\<close> raises IndexError. Indexing by an array of integers does so
  for each of them.\<close>

definition np_index :: "'a list \<Rightarrow> int \<Rightarrow> error + 'a" where
  "np_index a i =
     (let len = int (length a); j = (if i < 0 then len + i else i)
      in if 0 \<le> j \<and> j < len then Inr (a ! nat j) else Inl IndexError)"

fun np_getitem :: "'a list \<Rightarrow> int list \<Rightarrow> error + 'a list" where
  "np_getitem a [] = Inr []"
| "np_getitem a (i # idx) =
     (case np_index a i of
        Inl err \<Rightarrow> Inl err
      | Inr x \<Rightarrow> (case np_getitem a idx of
                   Inl err \<Rightarrow> Inl err
                 | Inr xs \<Rightarrow> Inr (x # xs)))"

text \<open>\<^verbatim>\<open>np.cumsum\<close>: the running sums, over the reals and over values that may be
  non-finite.\<close>

fun cumsum_from :: "('a \<Rightarrow> 'a \<Rightarrow> 'a) \<Rightarrow> 'a \<Rightarrow> 'a list \<Rightarrow> 'a list" where
  "cumsum_from f acc [] = []"
| "cumsum_from f acc (x # xs) = f acc x # cumsum_from f (f acc x) xs"

fun cumsum_with :: "('a \<Rightarrow> 'a \<Rightarrow> 'a) \<Rightarrow> 'a list \<Rightarrow> 'a list" where
  "cumsum_with f [] = []"
| "cumsum_with f (x # xs) = x # cumsum_from f x xs"

definition np_cumsum :: "real list \<Rightarrow> real list" where
  "np_cumsum a = cumsum_with (+) a"

definition np_cumsum_f :: "npfloat list \<Rightarrow> npfloat list" where
  "np_cumsum_f a = cumsum_with np_add a"

text \<open>\<^verbatim>\<open>np.searchsorted(a, v, side='right')\<close> on an ascending array \<open>a\<close>: the
  insertion point \<open>i\<close> with \<open>a[i-1] <= v < a[i]\<close>, that is the length of the
  longest prefix of entries \<open>\<le> v\<close>; for an array of values, the array of their
  insertion points.\<close>

definition searchsorted_right :: "real list \<Rightarrow> real \<Rightarrow> nat" where
  "searchsorted_right a v = length (takeWhile (\<lambda>x. x \<le> v) a)"

definition np_searchsorted :: "real list \<Rightarrow> real list \<Rightarrow> int list" where
  "np_searchsorted a vs = map (\<lambda>v. int (searchsorted_right a v)) vs"

text \<open>\<^verbatim>\<open>np.arange(n)\<close>.\<close>

definition np_arange :: "nat \<Rightarrow> int list" where
  "np_arange k = map int [0..<k]"

subsection \<open>FlareDataset\<close>

text \<open>The attributes \<^verbatim>\<open>e\<close> and \<^verbatim>\<open>n\<close> of a dataset are the fields \<open>data_e\<close>
  and \<open>data_n\<close>; the attribute \<^verbatim>\<open>e\<close> of a Flares object is the field
  \<open>flare_e\<close>.\<close>

record FlareDataset =
  elim :: real
  expt :: real
  data_e :: "real list"
  data_n :: nat

definition FlareDataset_init :: "real \<Rightarrow> real \<Rightarrow> real list \<Rightarrow> FlareDataset" where
  "FlareDataset_init detection_limit exposure_time flare_energies =
     \<lparr>elim = detection_limit, expt = exposure_time,
      data_e = flare_energies, data_n = length flare_energies\<rparr>"

subsection \<open>Flares\<close>

record Flares =
  datasets :: "FlareDataset list"
  n_total :: nat
  expt_total :: real
  flare_e :: "real list"
  expt_detectable :: "real list"
  cumfreq_naive :: "npfloat list"
  cumfreq_corrected :: "npfloat list"

text \<open>Lines 55 to 61: the exposure time in which an event of each energy of
  \<open>es\<close> could have been detected.\<close>

definition detectable :: "FlareDataset list \<Rightarrow> real list \<Rightarrow> error + real list" where
  "detectable ds es =
     (let expts = map expt ds;
          elims = map elim ds;
          isort = np_argsort elims
      in case np_getitem elims isort of
           Inl err \<Rightarrow> Inl err
         | Inr elims_s \<Rightarrow>
             (case np_getitem expts isort of
                Inl err \<Rightarrow> Inl err
              | Inr expts_s \<Rightarrow>
                  (let cumexpts = np_cumsum expts_s;
                       i_lims = np_searchsorted elims_s es
                   in np_getitem cumexpts (map (\<lambda>i. i - 1) i_lims))))"

text \<open>Lines 64 and 65.\<close>

definition naive :: "nat \<Rightarrow> real \<Rightarrow> npfloat list" where
  "naive n_tot expt_tot =
     (let cumno = map (\<lambda>k. k + 1) (rev (np_arange n_tot))
      in map (\<lambda>c. np_div (Fin (real_of_int c)) expt_tot) cumno)"

text \<open>Lines 66 and 67.\<close>

definition corrected :: "real list \<Rightarrow> real \<Rightarrow> npfloat list" where
  "corrected ed expt_tot =
     (let cumno_corrected =
            map (\<lambda>x. np_mul x expt_tot)
              (rev (np_cumsum_f (map (\<lambda>x. np_div (Fin 1) x) (rev ed))))
      in map (\<lambda>x. np_div x expt_tot) cumno_corrected)"

definition Flares_init :: "FlareDataset list \<Rightarrow> error + Flares" where
  "Flares_init ds =
     (let n_tot = sum_list (map data_n ds);
          expt_tot = sum_list (map expt ds)
      in case np_concatenate (map data_e ds) of
           Inl err \<Rightarrow> Inl err
         | Inr e0 \<Rightarrow>
             (let es = sort e0
              in case detectable ds es of
                   Inl err \<Rightarrow> Inl err
                 | Inr ed \<Rightarrow>
                     Inr \<lparr>datasets = ds, n_total = n_tot, expt_total = expt_tot,
                          flare_e = es, expt_detectable = ed,
                          cumfreq_naive = naive n_tot expt_tot,
                          cumfreq_corrected = corrected ed expt_tot\<rparr>))"

subsection \<open>Float64 arithmetic\<close>

text \<open>A finite float64 is \<open>m * 2^e\<close> with an integer \<open>m\<close> of at most 53 bits and
  \<open>-1074 \<le> e \<le> 971\<close>. Rounding a real \<open>x\<close>: its magnitude is scaled by powers of two
  into \<open>[2^52, 2^53)\<close>, the exponent staying at \<open>-1074\<close> for subnormal magnitudes, the
  scaled magnitude is rounded to the nearest integer, a tie going to the even one, and a
  result of magnitude \<open>2^1024\<close> or more is an overflow. The sign of a zero is not
  modelled.\<close>

definition round_even :: "real \<Rightarrow> int" where
  "round_even a =
     (let f = \<lfloor>a\<rfloor>; r = a - of_int f
      in if r < 1 / 2 then f else if 1 / 2 < r then f + 1 else if even f then f else f + 1)"

function scale_down :: "real \<Rightarrow> int \<Rightarrow> real \<times> int" where
  "scale_down a e = (if 2 ^ 53 \<le> a \<and> e < 972 then scale_down (a / 2) (e + 1) else (a, e))"
  by pat_completeness auto
termination
  by (relation "measure (\<lambda>(a, e). nat (972 - e))") auto

function scale_up :: "real \<Rightarrow> int \<Rightarrow> real \<times> int" where
  "scale_up a e = (if a < 2 ^ 52 \<and> - 1074 < e then scale_up (2 * a) (e - 1) else (a, e))"
  by pat_completeness auto
termination
  by (relation "measure (\<lambda>(a, e). nat (e + 1074))") auto

declare scale_down.simps [simp del] scale_up.simps [simp del]

definition pow2 :: "int \<Rightarrow> real" where
  "pow2 e = (if 0 \<le> e then 2 ^ nat e else 1 / 2 ^ nat (- e))"

definition f64_round :: "real \<Rightarrow> npfloat" where
  "f64_round x =
     (if x = 0 then Fin 0
      else (case scale_down \<bar>x\<bar> 0 of (a1, e1) \<Rightarrow>
            (case scale_up a1 e1 of (a, e) \<Rightarrow>
               (let m = of_int (round_even a) * pow2 e
                in if 2 ^ 1024 \<le> m then NonFinite else Fin (sgn x * m)))))"

text \<open>The float64 sum, product and quotient: the exact result of two floats, rounded.\<close>

fun f64_add :: "npfloat \<Rightarrow> npfloat \<Rightarrow> npfloat" where
  "f64_add (Fin x) (Fin y) = f64_round (x + y)"
| "f64_add (Fin x) NonFinite = NonFinite"
| "f64_add NonFinite y = NonFinite"

fun f64_mul :: "npfloat \<Rightarrow> real \<Rightarrow> npfloat" where
  "f64_mul (Fin x) y = f64_round (x * y)"
| "f64_mul NonFinite y = NonFinite"

fun f64_div :: "npfloat \<Rightarrow> real \<Rightarrow> npfloat" where
  "f64_div (Fin x) y = (if y = 0 then NonFinite else f64_round (x / y))"
| "f64_div NonFinite y = NonFinite"

text \<open>Lines 64 to 67 in float64. \<^verbatim>\<open>cumno\<close> is an integer array, converted to float64
  by the division; \<^verbatim>\<open>np.cumsum\<close> adds from the first entry on, rounding every partial
  sum; the product with and the quotient by \<^verbatim>\<open>expt_total\<close> round entry by entry.\<close>

definition naive_f64 :: "nat \<Rightarrow> real \<Rightarrow> npfloat list" where
  "naive_f64 n_tot expt_tot =
     (let cumno = map (\<lambda>k. k + 1) (rev (np_arange n_tot))
      in map (\<lambda>c. f64_div (f64_round (real_of_int c)) expt_tot) cumno)"

definition corrected_f64 :: "real list \<Rightarrow> real \<Rightarrow> npfloat list" where
  "corrected_f64 ed expt_tot =
     (let cumno_corrected =
            map (\<lambda>x. f64_mul x expt_tot)
              (rev (cumsum_with f64_add (map (\<lambda>x. f64_div (Fin 1) x) (rev ed))))
      in map (\<lambda>x. f64_div x expt_tot) cumno_corrected)"

text \<open>The constructor with lines 64 to 67 in float64. The sums of exposure times of lines
  48 and 59 are exact here; they are the float64 sums whenever the exposure times and
  their partial sums are integers below \<open>2^53\<close>, as in every input evaluated below, and
  for a single dataset there is nothing to add.\<close>

definition Flares_init_f64 :: "FlareDataset list \<Rightarrow> error + Flares" where
  "Flares_init_f64 ds =
     (let n_tot = sum_list (map data_n ds);
          expt_tot = sum_list (map expt ds)
      in case np_concatenate (map data_e ds) of
           Inl err \<Rightarrow> Inl err
         | Inr e0 \<Rightarrow>
             (let es = sort e0
              in case detectable ds es of
                   Inl err \<Rightarrow> Inl err
                 | Inr ed \<Rightarrow>
                     Inr \<lparr>datasets = ds, n_total = n_tot, expt_total = expt_tot,
                          flare_e = es, expt_detectable = ed,
                          cumfreq_naive = naive_f64 n_tot expt_tot,
                          cumfreq_corrected = corrected_f64 ed expt_tot\<rparr>))"

subsection \<open>Reference formulations\<close>

text \<open>What the lookup \<^verbatim>\<open>cumexpts[i_lims-1]\<close> yields for an event of energy \<open>v\<close>,
  written without the sort: the exposure times of the datasets whose detection limit is at
  most \<open>v\<close>, summed; and, when there is no such dataset, the index is \<open>-1\<close>, the last
  entry of \<^verbatim>\<open>cumexpts\<close>, which is the sum of all exposure times.\<close>

definition lookup_value :: "FlareDataset list \<Rightarrow> real \<Rightarrow> real" where
  "lookup_value ds v =
     (if filter (\<lambda>d. elim d \<le> v) ds = [] then sum_list (map expt ds)
      else sum_list (map expt (filter (\<lambda>d. elim d \<le> v) ds)))"

text \<open>The running sum of \<open>1 / detectable exposure\<close> as the specification words it: events are
  processed from the highest energy (the end of the array) down to the lowest, and the
  entry at a position is the sum accumulated so far, the term of that position included.
  Nothing is multiplied or divided by the total exposure.\<close>

fun plain_running_sum :: "real list \<Rightarrow> npfloat list" where
  "plain_running_sum [] = []"
| "plain_running_sum (x # xs) =
     (let below = plain_running_sum xs
      in (case below of
            [] \<Rightarrow> np_div (Fin 1) x
          | r # _ \<Rightarrow> np_add r (np_div (Fin 1) x)) # below)"

text \<open>The same running sum in float64: every term \<open>1 / x\<close> and every partial sum is
  rounded.\<close>

fun plain_running_sum_f64 :: "real list \<Rightarrow> npfloat list" where
  "plain_running_sum_f64 [] = []"
| "plain_running_sum_f64 (x # xs) =
     (let below = plain_running_sum_f64 xs
      in (case below of
            [] \<Rightarrow> f64_div (Fin 1) x
          | r # _ \<Rightarrow> f64_add r (f64_div (Fin 1) x)) # below)"

text \<open>The detectable exposure of an event of energy \<open>v\<close> as the class docstring and the
  specification word it: the sum of the exposure times of the datasets whose detection
  limit is at most \<open>v\<close>.\<close>

definition covered_exposure :: "FlareDataset list \<Rightarrow> real \<Rightarrow> real" where
  "covered_exposure ds v = sum_list (map expt (filter (\<lambda>d. elim d \<le> v) ds))"

section \<open>Properties\<close>

lemmas init_defs = Flares_init_def FlareDataset_init_def np_concatenate_def detectable_def
  np_argsort_def np_index_def np_cumsum_def np_cumsum_f_def searchsorted_right_def
  np_searchsorted_def np_arange_def naive_def corrected_def

lemmas f64_defs = f64_round_def scale_down.simps scale_up.simps round_even_def pow2_def
  naive_f64_def corrected_f64_def

subsection \<open>Indexing, running sums and the sorted search\<close>

lemma np_getitem_nat:
  "\<forall>i\<in>set idx. i < length a \<Longrightarrow> np_getitem a (map int idx) = Inr (map ((!) a) idx)"
  by (induction idx) (simp_all add: np_index_def)

lemma length_cumsum_from: "length (cumsum_from f acc xs) = length xs"
  by (induction xs arbitrary: acc) simp_all

lemma length_cumsum_with: "length (cumsum_with f xs) = length xs"
  by (cases xs) (simp_all add: length_cumsum_from)

lemma nth_cumsum_from:
  "k < length xs \<Longrightarrow> cumsum_from (+) acc xs ! k = acc + sum_list (take (Suc k) xs)"
  for acc :: real
proof (induction xs arbitrary: acc k)
  case Nil
  then show ?case by simp
next
  case (Cons x xs)
  then show ?case by (cases k) (simp_all add: add.assoc)
qed

lemma nth_np_cumsum:
  "k < length xs \<Longrightarrow> np_cumsum xs ! k = sum_list (take (Suc k) xs)"
proof (cases xs)
  case Nil
  assume "k < length xs"
  with Nil show ?thesis by simp
next
  case (Cons x ys)
  assume "k < length xs"
  with Cons show ?thesis
    by (cases k) (simp_all add: np_cumsum_def nth_cumsum_from)
qed

lemma length_np_cumsum: "length (np_cumsum xs) = length xs"
  by (simp add: np_cumsum_def length_cumsum_with)

lemma takeWhile_sorted_filter:
  "sorted (map f xs) \<Longrightarrow> takeWhile (\<lambda>x. f x \<le> v) xs = filter (\<lambda>x. f x \<le> v) xs"
  for f :: "'a \<Rightarrow> real"
proof (induction xs)
  case Nil
  then show ?case by simp
next
  case (Cons x xs)
  show ?case
  proof (cases "f x \<le> v")
    case True
    with Cons show ?thesis by simp
  next
    case False
    from Cons.prems have "\<forall>y\<in>set xs. f x \<le> f y" by simp
    with False have "\<forall>y\<in>set xs. \<not> f y \<le> v" by fastforce
    then have "filter (\<lambda>x. f x \<le> v) xs = []" by (simp add: filter_empty_conv)
    with False show ?thesis by simp
  qed
qed

lemma searchsorted_right_sorted:
  "sorted (map f xs) \<Longrightarrow>
   searchsorted_right (map f xs) v = length (filter (\<lambda>x. f x \<le> v) xs)"
proof -
  assume s: "sorted (map f xs)"
  have "takeWhile (\<lambda>x. x \<le> v) (map f xs) = map f (takeWhile (\<lambda>x. f x \<le> v) xs)"
    by (simp add: takeWhile_map comp_def)
  then show ?thesis
    using takeWhile_sorted_filter [OF s, of v] by (simp add: searchsorted_right_def)
qed

lemma take_filter_sorted:
  "sorted (map f xs) \<Longrightarrow> take (length (filter (\<lambda>x. f x \<le> v) xs)) xs = filter (\<lambda>x. f x \<le> v) xs"
  for f :: "'a \<Rightarrow> real"
proof -
  assume s: "sorted (map f xs)"
  have "take (length (takeWhile (\<lambda>x. f x \<le> v) xs)) xs = takeWhile (\<lambda>x. f x \<le> v) xs"
    by (rule takeWhile_eq_take [symmetric])
  then show ?thesis using takeWhile_sorted_filter [OF s, of v] by simp
qed

lemma np_index_nat: "k < length a \<Longrightarrow> np_index a (int k) = Inr (a ! k)"
  by (simp add: np_index_def)

lemma np_index_last: "a \<noteq> [] \<Longrightarrow> np_index a (- 1) = Inr (a ! (length a - 1))"
proof -
  assume "a \<noteq> []"
  then obtain m where m: "length a = Suc m" by (cases a) auto
  then show ?thesis by (simp add: np_index_def)
qed

lemma np_index_pred:
  "np_index a (int (Suc m) - 1) = np_index a (int m)"
  by simp

lemma np_index_lookup:
  assumes s: "sorted (map elim ss)" and ne: "ss \<noteq> []"
  shows "np_index (np_cumsum (map expt ss)) (int (searchsorted_right (map elim ss) v) - 1)
         = Inr (lookup_value ss v)"
proof -
  let ?sel = "filter (\<lambda>d. elim d \<le> v) ss"
  let ?c = "np_cumsum (map expt ss)"
  have k: "searchsorted_right (map elim ss) v = length ?sel"
    by (rule searchsorted_right_sorted [OF s])
  have len: "length ?c = length ss" by (simp add: length_np_cumsum)
  from ne have cne: "?c \<noteq> []" using len by auto
  show ?thesis
  proof (cases "length ?sel")
    case 0
    then have sel: "?sel = []" by simp
    from ne obtain m where m: "length ss = Suc m" by (cases ss) auto
    have "np_index ?c (int 0 - 1) = Inr (?c ! (length ?c - 1))"
      using np_index_last [OF cne] by simp
    also have "?c ! (length ?c - 1) = sum_list (take (Suc m) (map expt ss))"
      using nth_np_cumsum [of m "map expt ss"] m len by simp
    also have "\<dots> = sum_list (map expt ss)" using m by simp
    finally have "np_index ?c (int 0 - 1) = Inr (sum_list (map expt ss))" .
    then show ?thesis unfolding k 0 lookup_value_def using sel by simp
  next
    case (Suc m)
    then have sel: "?sel \<noteq> []" by auto
    have "length ?sel \<le> length ss" by (rule length_filter_le)
    with Suc have lt: "m < length ss" by linarith
    have "np_index ?c (int (Suc m) - 1) = np_index ?c (int m)" by (rule np_index_pred)
    also have "\<dots> = Inr (?c ! m)" using lt len by (intro np_index_nat) simp
    also have "?c ! m = sum_list (take (Suc m) (map expt ss))"
      using lt by (intro nth_np_cumsum) simp
    also have "\<dots> = sum_list (map expt (take (length ?sel) ss))"
      unfolding Suc by (simp only: take_map)
    also have "take (length ?sel) ss = ?sel"
      by (rule take_filter_sorted [OF s])
    finally have "np_index ?c (int (Suc m) - 1) = Inr (sum_list (map expt ?sel))" .
    then show ?thesis unfolding k Suc lookup_value_def using sel by simp
  qed
qed

lemma np_getitem_lookup:
  assumes s: "sorted (map elim ss)" and ne: "ss \<noteq> []"
  shows "np_getitem (np_cumsum (map expt ss))
           (map (\<lambda>i. i - 1) (np_searchsorted (map elim ss) es))
         = Inr (map (lookup_value ss) es)"
proof (induction es)
  case Nil
  show ?case by (simp add: np_searchsorted_def)
next
  case (Cons v vs)
  from Cons show ?case
    unfolding np_searchsorted_def
    by (simp only: list.map np_getitem.simps np_index_lookup [OF s ne] sum.case)
qed

lemma sum_list_map_mset_cong:
  "mset xs = mset ys \<Longrightarrow> sum_list (map f xs) = sum_list (map f ys)"
  for f :: "'a \<Rightarrow> real"
proof -
  assume "mset xs = mset ys"
  then have "sum_mset (mset (map f xs)) = sum_mset (mset (map f ys))" by simp
  then show ?thesis by (simp only: sum_mset_sum_list)
qed

lemma lookup_value_mset:
  assumes "mset ss = mset ds"
  shows "lookup_value ss v = lookup_value ds v"
proof -
  let ?P = "\<lambda>d. elim d \<le> v"
  have f: "mset (filter ?P ss) = mset (filter ?P ds)"
    using assms by simp
  have a: "sum_list (map expt (filter ?P ss)) = sum_list (map expt (filter ?P ds))"
    by (rule sum_list_map_mset_cong [OF f])
  have b: "sum_list (map expt ss) = sum_list (map expt ds)"
    by (rule sum_list_map_mset_cong [OF assms])
  have "mset (filter ?P ss) = {#} \<longleftrightarrow> mset (filter ?P ds) = {#}"
    by (simp only: f)
  then have c: "filter ?P ss = [] \<longleftrightarrow> filter ?P ds = []"
    by (simp only: mset_zero_iff)
  show ?thesis unfolding lookup_value_def by (simp only: a b c)
qed

lemma argsort_mset:
  "mset (map ((!) ds) (sort_key g [0..<length ds])) = mset ds"
proof -
  have "mset (map ((!) ds) (sort_key g [0..<length ds])) = image_mset ((!) ds) (mset [0..<length ds])"
    by simp
  also have "\<dots> = mset (map ((!) ds) [0..<length ds])" by simp
  also have "\<dots> = mset ds" by (simp only: map_nth)
  finally show ?thesis .
qed

lemma map_nth_map:
  "\<forall>i\<in>set idx. i < length xs \<Longrightarrow> map ((!) (map f xs)) idx = map f (map ((!) xs) idx)"
  by (induction idx) simp_all

lemma detectable_eq:
  assumes ne: "ds \<noteq> []"
  shows "detectable ds es = Inr (map (lookup_value ds) es)"
proof -
  let ?idx = "sort_key (\<lambda>i. map elim ds ! i) [0..<length (map elim ds)]"
  let ?ss = "map ((!) ds) ?idx"
  have inr: "\<forall>i\<in>set ?idx. i < length ds" by simp
  have inr': "\<forall>i\<in>set ?idx. i < length (map elim ds)" by simp
  have inr'': "\<forall>i\<in>set ?idx. i < length (map expt ds)" by simp
  have m1: "map ((!) (map elim ds)) ?idx = map elim ?ss" by (rule map_nth_map [OF inr])
  have m2: "map ((!) (map expt ds)) ?idx = map expt ?ss" by (rule map_nth_map [OF inr])
  have e1: "np_getitem (map elim ds) (map int ?idx) = Inr (map elim ?ss)"
    using np_getitem_nat [OF inr'] by (simp only: m1)
  have e2: "np_getitem (map expt ds) (map int ?idx) = Inr (map expt ?ss)"
    using np_getitem_nat [OF inr''] by (simp only: m2)
  have "sorted (map ((!) (map elim ds)) ?idx)"
    by (rule sorted_sort_key)
  then have s: "sorted (map elim ?ss)" by (simp only: m1)
  have "mset (map ((!) ds) (sort_key (\<lambda>i. map elim ds ! i) [0..<length ds])) = mset ds"
    by (rule argsort_mset)
  then have m: "mset ?ss = mset ds" by simp
  have "length ?ss = length ds" by simp
  with ne have ne': "?ss \<noteq> []" by (metis length_0_conv)
  have "detectable ds es = np_getitem (np_cumsum (map expt ?ss))
           (map (\<lambda>i. i - 1) (np_searchsorted (map elim ?ss) es))"
    unfolding detectable_def np_argsort_def Let_def
    by (simp only: e1 e2 sum.case)
  also have "\<dots> = Inr (map (lookup_value ?ss) es)"
    by (rule np_getitem_lookup [OF s ne'])
  also have "map (lookup_value ?ss) es = map (lookup_value ds) es"
    using lookup_value_mset [OF m] by simp
  finally show ?thesis .
qed

text \<open>The lookup does not depend on how \<^verbatim>\<open>np.argsort\<close> orders datasets of equal
  detection limit: every arrangement of the datasets by ascending limit gives the same
  array.\<close>

lemma lookup_any_sorted_order:
  assumes "mset ss = mset ds" and "sorted (map elim ss)" and "ds \<noteq> []"
  shows "np_getitem (np_cumsum (map expt ss))
           (map (\<lambda>i. i - 1) (np_searchsorted (map elim ss) es))
         = Inr (map (lookup_value ds) es)"
proof -
  from assms(1,3) have ne: "ss \<noteq> []" by auto
  have "map (lookup_value ss) es = map (lookup_value ds) es"
    using lookup_value_mset [OF assms(1)] by simp
  then show ?thesis using np_getitem_lookup [OF assms(2) ne, of es] by simp
qed

subsection \<open>The constructor on a non-empty list; the two frequency curves\<close>

lemma Flares_init_nonempty:
  assumes "ds \<noteq> []"
  shows "Flares_init ds =
     Inr \<lparr>datasets = ds, n_total = sum_list (map data_n ds),
          expt_total = sum_list (map expt ds),
          flare_e = sort (concat (map data_e ds)),
          expt_detectable = map (lookup_value ds) (sort (concat (map data_e ds))),
          cumfreq_naive = naive (sum_list (map data_n ds)) (sum_list (map expt ds)),
          cumfreq_corrected =
            corrected (map (lookup_value ds) (sort (concat (map data_e ds))))
              (sum_list (map expt ds))\<rparr>"
  using assms unfolding Flares_init_def np_concatenate_def Let_def
  by (simp add: detectable_eq)

lemma cumno_eq:
  "map (\<lambda>k. k + 1) (rev (np_arange k)) = map (\<lambda>i. int (k - i)) [0..<k]"
proof (rule nth_equalityI)
  show "length (map (\<lambda>k. k + 1) (rev (np_arange k))) = length (map (\<lambda>i. int (k - i)) [0..<k])"
    by (simp add: np_arange_def)
next
  fix i
  assume "i < length (map (\<lambda>k. k + 1) (rev (np_arange k)))"
  then have i: "i < k" by (simp add: np_arange_def)
  then have "rev (np_arange k) ! i = int (k - Suc i)"
    by (simp add: np_arange_def rev_nth)
  with i show "map (\<lambda>k. k + 1) (rev (np_arange k)) ! i = map (\<lambda>i. int (k - i)) [0..<k] ! i"
    by (simp add: np_arange_def)
qed

lemma naive_eq:
  "naive k T = map (\<lambda>i. np_div (Fin (real (k - i))) T) [0..<k]"
  unfolding naive_def Let_def cumno_eq by (simp add: comp_def)

lemma np_mul_div_cancel: "T \<noteq> 0 \<Longrightarrow> np_div (np_mul x T) T = x"
  by (cases x) simp_all

lemma corrected_no_rescale:
  assumes "T \<noteq> 0"
  shows "corrected ed T = rev (np_cumsum_f (map (\<lambda>x. np_div (Fin 1) x) (rev ed)))"
proof -
  have "map (\<lambda>x. np_div x T) (map (\<lambda>x. np_mul x T) ys) = ys" for ys
    using assms by (induction ys) (simp_all add: np_mul_div_cancel)
  then show ?thesis by (simp only: corrected_def Let_def)
qed

lemma cumsum_from_snoc:
  "cumsum_from f acc (ys @ [y]) =
     cumsum_from f acc ys @ [f (last (acc # cumsum_from f acc ys)) y]"
  by (induction ys arbitrary: acc) simp_all

lemma cumsum_with_snoc:
  "ys \<noteq> [] \<Longrightarrow> cumsum_with f (ys @ [y]) = cumsum_with f ys @ [f (last (cumsum_with f ys)) y]"
  by (cases ys) (simp_all add: cumsum_from_snoc)

lemma cumsum_with_Nil_iff: "cumsum_with f ys = [] \<longleftrightarrow> ys = []"
  by (cases ys) simp_all

lemma rev_cumsum_plain:
  "rev (np_cumsum_f (map (\<lambda>x. np_div (Fin 1) x) (rev ed))) = plain_running_sum ed"
proof (induction ed)
  case Nil
  show ?case by (simp add: np_cumsum_f_def)
next
  case (Cons x xs)
  let ?r = "\<lambda>x. np_div (Fin 1) x"
  let ?C = "cumsum_with np_add (map ?r (rev xs))"
  from Cons have IH: "rev ?C = plain_running_sum xs" by (simp add: np_cumsum_f_def)
  show ?case
  proof (cases xs)
    case Nil
    then show ?thesis by (simp add: np_cumsum_f_def)
  next
    case (Cons y ys)
    then have ne: "map ?r (rev xs) \<noteq> []" by simp
    then have Cne: "?C \<noteq> []" by (simp only: cumsum_with_Nil_iff not_False_eq_True)
    have "cumsum_with np_add (map ?r (rev (x # xs))) = ?C @ [np_add (last ?C) (?r x)]"
      using cumsum_with_snoc [OF ne, of np_add "?r x"] by simp
    then have "rev (cumsum_with np_add (map ?r (rev (x # xs)))) = np_add (last ?C) (?r x) # rev ?C"
      by simp
    moreover have "last ?C = hd (rev ?C)" using Cne by (simp add: hd_rev)
    ultimately have "rev (cumsum_with np_add (map ?r (rev (x # xs))))
        = np_add (hd (plain_running_sum xs)) (?r x) # plain_running_sum xs"
      by (simp only: IH)
    moreover have "plain_running_sum xs \<noteq> []" using IH Cne by (metis rev_is_Nil_conv)
    ultimately show ?thesis
      by (cases "plain_running_sum xs") (simp_all add: np_cumsum_f_def Let_def)
  qed
qed

lemma corrected_eq_plain:
  "T \<noteq> 0 \<Longrightarrow> corrected ed T = plain_running_sum ed"
  using corrected_no_rescale [of T ed] rev_cumsum_plain [of ed] by simp

text \<open>The entry of the plain running sum at index \<open>i\<close> is the sum of \<open>1 / x\<close> over the
  detectable exposures \<open>x\<close> at the positions from \<open>i\<close> on, and non-finite when one of them
  is zero.\<close>

lemma plain_running_sum_tl: "plain_running_sum (x # xs) = hd (plain_running_sum (x # xs)) # plain_running_sum xs"
  by (simp add: Let_def)

lemma length_plain_running_sum: "length (plain_running_sum ed) = length ed"
  by (induction ed) (simp_all add: Let_def)

lemma drop_plain_running_sum: "drop i (plain_running_sum ed) = plain_running_sum (drop i ed)"
proof (induction ed arbitrary: i)
  case Nil
  show ?case by simp
next
  case (Cons x xs)
  show ?case
  proof (cases i)
    case 0
    then show ?thesis by simp
  next
    case (Suc k)
    have "drop (Suc k) (plain_running_sum (x # xs)) = drop k (plain_running_sum xs)"
      by (subst plain_running_sum_tl) simp
    with Suc Cons.IH [of k] show ?thesis by simp
  qed
qed

lemma hd_plain_running_sum:
  "ed \<noteq> [] \<Longrightarrow>
   hd (plain_running_sum ed) =
     (if 0 \<in> set ed then NonFinite else Fin (sum_list (map (\<lambda>x. 1 / x) ed)))"
proof (induction ed)
  case Nil
  then show ?case by simp
next
  case (Cons x xs)
  show ?case
  proof (cases xs)
    case Nil
    then show ?thesis by simp
  next
    case (Cons y ys)
    then have ne: "xs \<noteq> []" by simp
    then have "plain_running_sum xs \<noteq> []"
      using length_plain_running_sum [of xs] by (metis length_0_conv)
    then obtain r rs where r: "plain_running_sum xs = r # rs"
      by (cases "plain_running_sum xs") auto
    with Cons.IH [OF ne]
    have rv: "r = (if 0 \<in> set xs then NonFinite else Fin (sum_list (map (\<lambda>x. 1 / x) xs)))"
      by simp
    have "hd (plain_running_sum (x # xs)) = np_add r (np_div (Fin 1) x)"
      by (simp add: r Let_def)
    then show ?thesis by (auto simp: rv)
  qed
qed

lemma nth_plain_running_sum:
  assumes "i < length ed"
  shows "plain_running_sum ed ! i =
     (if 0 \<in> set (drop i ed) then NonFinite
      else Fin (sum_list (map (\<lambda>x. 1 / x) (drop i ed))))"
proof -
  from assms have ne: "drop i ed \<noteq> []" by simp
  from assms have "i < length (plain_running_sum ed)"
    by (simp add: length_plain_running_sum)
  then have "plain_running_sum ed ! i = hd (drop i (plain_running_sum ed))"
    by (simp add: hd_drop_conv_nth)
  also have "\<dots> = hd (plain_running_sum (drop i ed))"
    by (simp only: drop_plain_running_sum)
  finally show ?thesis by (simp only: hd_plain_running_sum [OF ne])
qed

lemma nth_naive:
  "i < k \<Longrightarrow> T \<noteq> 0 \<Longrightarrow> naive k T ! i = Fin ((real k - real i) / T)"
  by (simp add: naive_eq of_nat_diff)

lemma Flares_init_fields:
  assumes "Flares_init ds = Inr F"
  shows "ds \<noteq> []"
    and "cumfreq_naive F = naive (n_total F) (expt_total F)"
    and "cumfreq_corrected F = corrected (expt_detectable F) (expt_total F)"
    and "n_total F = sum_list (map data_n ds)"
    and "expt_total F = sum_list (map expt ds)"
    and "flare_e F = sort (concat (map data_e ds))"
    and "expt_detectable F = map (lookup_value ds) (flare_e F)"
proof -
  show ne: "ds \<noteq> []"
    using assms by (auto simp: Flares_init_def np_concatenate_def)
  from assms Flares_init_nonempty [OF ne]
  have F: "F = \<lparr>datasets = ds, n_total = sum_list (map data_n ds),
          expt_total = sum_list (map expt ds),
          flare_e = sort (concat (map data_e ds)),
          expt_detectable = map (lookup_value ds) (sort (concat (map data_e ds))),
          cumfreq_naive = naive (sum_list (map data_n ds)) (sum_list (map expt ds)),
          cumfreq_corrected =
            corrected (map (lookup_value ds) (sort (concat (map data_e ds))))
              (sum_list (map expt ds))\<rparr>"
    by simp
  show "cumfreq_naive F = naive (n_total F) (expt_total F)" by (simp add: F)
  show "cumfreq_corrected F = corrected (expt_detectable F) (expt_total F)" by (simp add: F)
  show "n_total F = sum_list (map data_n ds)" by (simp add: F)
  show "expt_total F = sum_list (map expt ds)" by (simp add: F)
  show "flare_e F = sort (concat (map data_e ds))" by (simp add: F)
  show "expt_detectable F = map (lookup_value ds) (flare_e F)" by (simp add: F)
qed

subsection \<open>The constructor in float64\<close>

text \<open>The rounding at a few values: a float that is not a binary fraction, a negative
  one, a small integer, two ties above \<open>2^53\<close>, the overflow threshold, the largest
  finite float, the smallest subnormal and half of it.\<close>

lemma f64_round_examples:
  "f64_round (1 / 10) = Fin (3602879701896397 / 36028797018963968)"
  "f64_round (- (1 / 3)) = Fin (- (6004799503160661 / 18014398509481984))"
  "f64_round 3 = Fin 3"
  "f64_round (2 ^ 53 + 1) = Fin (2 ^ 53)"
  "f64_round (2 ^ 53 + 3) = Fin (2 ^ 53 + 4)"
  "f64_round (2 ^ 1024 - 2 ^ 970) = NonFinite"
  "f64_round (2 ^ 1024 - 2 ^ 971) = Fin (2 ^ 1024 - 2 ^ 971)"
  "f64_round (1 / 2 ^ 1074) = Fin (1 / 2 ^ 1074)"
  "f64_round (1 / 2 ^ 1075) = Fin 0"
  by (simp_all add: f64_defs)

text \<open>A product that overflows although the running sum is finite.\<close>

lemma rescaling_overflows:
  "corrected_f64 [1 / 2 ^ 600] (2 ^ 600) = [NonFinite]"
  "plain_running_sum_f64 [1 / 2 ^ 600] = [Fin (2 ^ 600)]"
  by (simp_all add: f64_defs)

lemma Flares_init_f64_nonempty:
  assumes "ds \<noteq> []"
  shows "Flares_init_f64 ds =
     Inr \<lparr>datasets = ds, n_total = sum_list (map data_n ds),
          expt_total = sum_list (map expt ds),
          flare_e = sort (concat (map data_e ds)),
          expt_detectable = map (lookup_value ds) (sort (concat (map data_e ds))),
          cumfreq_naive = naive_f64 (sum_list (map data_n ds)) (sum_list (map expt ds)),
          cumfreq_corrected =
            corrected_f64 (map (lookup_value ds) (sort (concat (map data_e ds))))
              (sum_list (map expt ds))\<rparr>"
  using assms unfolding Flares_init_f64_def np_concatenate_def Let_def
  by (simp add: detectable_eq)

lemma Flares_init_f64_fields:
  assumes "Flares_init_f64 ds = Inr F"
  shows "ds \<noteq> []"
    and "cumfreq_naive F = naive_f64 (n_total F) (expt_total F)"
    and "cumfreq_corrected F = corrected_f64 (expt_detectable F) (expt_total F)"
    and "n_total F = sum_list (map data_n ds)"
    and "expt_total F = sum_list (map expt ds)"
    and "flare_e F = sort (concat (map data_e ds))"
    and "expt_detectable F = map (lookup_value ds) (flare_e F)"
proof -
  show ne: "ds \<noteq> []"
    using assms by (auto simp: Flares_init_f64_def np_concatenate_def)
  from assms Flares_init_f64_nonempty [OF ne]
  have F: "F = \<lparr>datasets = ds, n_total = sum_list (map data_n ds),
          expt_total = sum_list (map expt ds),
          flare_e = sort (concat (map data_e ds)),
          expt_detectable = map (lookup_value ds) (sort (concat (map data_e ds))),
          cumfreq_naive = naive_f64 (sum_list (map data_n ds)) (sum_list (map expt ds)),
          cumfreq_corrected =
            corrected_f64 (map (lookup_value ds) (sort (concat (map data_e ds))))
              (sum_list (map expt ds))\<rparr>"
    by simp
  show "cumfreq_naive F = naive_f64 (n_total F) (expt_total F)" by (simp add: F)
  show "cumfreq_corrected F = corrected_f64 (expt_detectable F) (expt_total F)" by (simp add: F)
  show "n_total F = sum_list (map data_n ds)" by (simp add: F)
  show "expt_total F = sum_list (map expt ds)" by (simp add: F)
  show "flare_e F = sort (concat (map data_e ds))" by (simp add: F)
  show "expt_detectable F = map (lookup_value ds) (flare_e F)" by (simp add: F)
qed

lemma rev_cumsum_plain_f64:
  "rev (cumsum_with f64_add (map (\<lambda>x. f64_div (Fin 1) x) (rev ed))) = plain_running_sum_f64 ed"
proof (induction ed)
  case Nil
  show ?case by simp
next
  case (Cons x xs)
  let ?r = "\<lambda>x. f64_div (Fin 1) x"
  let ?C = "cumsum_with f64_add (map ?r (rev xs))"
  from Cons have IH: "rev ?C = plain_running_sum_f64 xs" .
  show ?case
  proof (cases xs)
    case Nil
    then show ?thesis by simp
  next
    case (Cons y ys)
    then have ne: "map ?r (rev xs) \<noteq> []" by simp
    then have Cne: "?C \<noteq> []" by (simp only: cumsum_with_Nil_iff not_False_eq_True)
    have "cumsum_with f64_add (map ?r (rev (x # xs))) = ?C @ [f64_add (last ?C) (?r x)]"
      using cumsum_with_snoc [OF ne, of f64_add "?r x"] by simp
    then have "rev (cumsum_with f64_add (map ?r (rev (x # xs)))) = f64_add (last ?C) (?r x) # rev ?C"
      by simp
    moreover have "last ?C = hd (rev ?C)" using Cne by (simp add: hd_rev)
    ultimately have "rev (cumsum_with f64_add (map ?r (rev (x # xs))))
        = f64_add (hd (plain_running_sum_f64 xs)) (?r x) # plain_running_sum_f64 xs"
      by (simp only: IH)
    moreover have "plain_running_sum_f64 xs \<noteq> []" using IH Cne by (metis rev_is_Nil_conv)
    ultimately show ?thesis
      by (cases "plain_running_sum_f64 xs") (simp_all add: Let_def)
  qed
qed

lemma corrected_f64_eq:
  "corrected_f64 ed T = map (\<lambda>s. f64_div (f64_mul s T) T) (plain_running_sum_f64 ed)"
  unfolding corrected_f64_def Let_def rev_cumsum_plain_f64 by (simp add: comp_def)

lemma naive_f64_eq:
  "naive_f64 k T = map (\<lambda>i. f64_div (f64_round (real (k - i))) T) [0..<k]"
  unfolding naive_f64_def Let_def cumno_eq by (simp add: comp_def)

subsection \<open>The detectable exposure of covered and uncovered events\<close>

text \<open>An event is covered when some dataset has a detection limit at or below its energy.
  For a covered event the lookup yields the sum over exactly the datasets that cover it
  (a limit equal to the energy counts); for an event below every limit the index
  \<open>i_lims - 1\<close> is \<open>-1\<close> and the lookup yields the total exposure.\<close>

lemma lookup_value_single: "lookup_value [d] v = expt d"
  by (simp add: lookup_value_def)

lemma plain_running_sum_replicate:
  "t \<noteq> 0 \<Longrightarrow> plain_running_sum (replicate k t) = map (\<lambda>i. Fin (real (k - i) / t)) [0..<k]"
proof (induction k)
  case 0
  show ?case by simp
next
  case (Suc k)
  have shift: "map (\<lambda>i. Fin (real (Suc k - i) / t)) [0..<Suc k]
      = Fin (real (Suc k) / t) # map (\<lambda>i. Fin (real (k - i) / t)) [0..<k]"
    by (simp only: upt_conv_Cons [of 0 "Suc k"] map_Suc_upt [symmetric]) (simp add: comp_def)
  show ?case
  proof (cases k)
    case 0
    with Suc show ?thesis by simp
  next
    case (Suc m)
    have "plain_running_sum (replicate k t) = Fin (real k / t) # map (\<lambda>i. Fin (real (k - i) / t)) [1..<k]"
      using Suc.IH [OF Suc.prems] Suc by (simp add: upt_conv_Cons)
    then have "plain_running_sum (replicate (Suc k) t)
        = Fin (real k / t + 1 / t) # plain_running_sum (replicate k t)"
      using Suc.prems by (simp add: Let_def)
    also have "Fin (real k / t + 1 / t) = Fin (real (Suc k) / t)"
      by (simp add: add_divide_distrib)
    finally show ?thesis using Suc.IH [OF Suc.prems] by (simp only: shift)
  qed
qed

lemma naive_finite:
  "T \<noteq> 0 \<Longrightarrow> naive k T = map (\<lambda>i. Fin (real (k - i) / T)) [0..<k]"
  by (simp add: naive_eq)

text \<open>In exact arithmetic the corrected and the naive curve of a single dataset
  coincide.\<close>

lemma single_dataset_exact_arithmetic:
  "t \<noteq> 0 \<Longrightarrow> corrected (replicate k t) t = naive k t"
  by (simp add: corrected_eq_plain plain_running_sum_replicate naive_finite)

lemma naive_0: "naive 0 T = []"
  by (simp add: naive_eq)

lemma corrected_Nil: "corrected [] T = []"
  by (simp add: corrected_def np_cumsum_f_def)

lemma np_div_zero: "np_div x 0 = NonFinite"
  by (cases x) simp_all

lemma lookup_value_covered:
  "\<exists>d \<in> set ds. elim d \<le> v \<Longrightarrow> lookup_value ds v = covered_exposure ds v"
  by (auto simp: lookup_value_def covered_exposure_def filter_empty_conv)

lemma lookup_value_uncovered:
  "\<forall>d \<in> set ds. v < elim d \<Longrightarrow> lookup_value ds v = sum_list (map expt ds)"
proof -
  assume "\<forall>d \<in> set ds. v < elim d"
  then have "\<forall>d \<in> set ds. \<not> elim d \<le> v" by fastforce
  then have "filter (\<lambda>d. elim d \<le> v) ds = []" by (simp add: filter_empty_conv)
  then show ?thesis by (simp add: lookup_value_def)
qed

lemma covered_exposure_mono:
  assumes "\<forall>d \<in> set ds. 0 \<le> expt d" and "v \<le> w"
  shows "covered_exposure ds v \<le> covered_exposure ds w"
  using assms unfolding covered_exposure_def
  by (induction ds) (auto simp: add_increasing)

lemma detectable_covered:
  assumes "Flares_init ds = Inr F" and "i < length (flare_e F)"
    and "\<exists>d \<in> set ds. elim d \<le> flare_e F ! i"
  shows "expt_detectable F ! i = covered_exposure ds (flare_e F ! i)"
  using assms(2) lookup_value_covered [OF assms(3)]
  by (simp add: Flares_init_fields(7) [OF assms(1)])

lemma detectable_uncovered:
  assumes "Flares_init ds = Inr F" and "i < length (flare_e F)"
    and "\<forall>d \<in> set ds. flare_e F ! i < elim d"
  shows "expt_detectable F ! i = expt_total F"
  using assms(2) lookup_value_uncovered [OF assms(3)]
  by (simp add: Flares_init_fields(7) [OF assms(1)] Flares_init_fields(5) [OF assms(1)])

lemma detectable_sorted_if_covered:
  assumes "Flares_init ds = Inr F"
    and "\<forall>d \<in> set ds. 0 \<le> expt d"
    and "\<forall>v \<in> set (flare_e F). \<exists>d \<in> set ds. elim d \<le> v"
  shows "sorted (expt_detectable F)"
proof -
  have "map (lookup_value ds) (flare_e F) = map (covered_exposure ds) (flare_e F)"
    using assms(3) by (intro map_cong refl lookup_value_covered) blast
  then have ed: "expt_detectable F = map (covered_exposure ds) (flare_e F)"
    by (simp add: Flares_init_fields(7) [OF assms(1)])
  have "sorted (flare_e F)"
    by (simp add: Flares_init_fields(6) [OF assms(1)])
  then have "sorted_wrt (\<lambda>v w. covered_exposure ds v \<le> covered_exposure ds w) (flare_e F)"
    by (rule sorted_wrt_mono_rel [rotated]) (rule covered_exposure_mono [OF assms(2)])
  then show ?thesis by (simp add: ed sorted_map)
qed

subsection \<open>The two-dataset scenario\<close>

text \<open>
  Claim C1. Dataset A has detection limit 1, exposure time 100 and events 2 and 5; dataset
  B has detection limit 3, exposure time 50 and the event 4. The constructor returns the
  energies 2, 4, 5, three events in total, a total exposure of 150, the detectable
  exposures 100, 150, 150, the naive frequencies 3/150, 2/150, 1/150 and the corrected
  frequencies 2/150 + 1/100, 2/150, 1/150.
\<close>

theorem two_dataset_scenario:
  "Flares_init [FlareDataset_init 1 100 [2, 5], FlareDataset_init 3 50 [4]] =
     Inr \<lparr>datasets = [FlareDataset_init 1 100 [2, 5], FlareDataset_init 3 50 [4]],
          n_total = 3, expt_total = 150, flare_e = [2, 4, 5],
          expt_detectable = [100, 150, 150],
          cumfreq_naive = [Fin (3 / 150), Fin (2 / 150), Fin (1 / 150)],
          cumfreq_corrected = [Fin (2 / 150 + 1 / 100), Fin (2 / 150), Fin (1 / 150)]\<rparr>"
  by (simp add: init_defs upt_rec)

subsection \<open>No datasets\<close>

text \<open>
  Claim C4. The constructor applied to the empty list of datasets raises an error (the
  ValueError of \<^verbatim>\<open>np.concatenate\<close>); it returns no object.
\<close>

theorem empty_collection_raises:
  "Flares_init [] = Inl ValueError"
  by (simp add: init_defs)

subsection \<open>The naive cumulative frequency\<close>

text \<open>
  Claim C6. When the constructor returns and the total exposure \<open>T\<close> is positive, the naive
  cumulative frequency has one entry for each of the \<open>n\<close> events counted, and its entry
  at index \<open>i\<close> (from 0, in ascending order of energy) is \<open>(n - i) / T\<close>. With five events
  and a total exposure of 10 the array is 5/10, 4/10, 3/10, 2/10, 1/10.
\<close>

theorem naive_cumfreq_formula:
  assumes "Flares_init ds = Inr F" and "0 < expt_total F"
  shows "length (cumfreq_naive F) = n_total F \<and>
         (\<forall>i < n_total F.
            cumfreq_naive F ! i = Fin ((real (n_total F) - real i) / expt_total F))"
proof -
  have n: "cumfreq_naive F = naive (n_total F) (expt_total F)"
    by (rule Flares_init_fields(2) [OF assms(1)])
  from assms(2) have T: "expt_total F \<noteq> 0" by simp
  have "length (cumfreq_naive F) = n_total F" by (simp add: n naive_eq)
  moreover have "\<forall>i < n_total F.
      cumfreq_naive F ! i = Fin ((real (n_total F) - real i) / expt_total F)"
    using T by (simp add: n nth_naive)
  ultimately show ?thesis by (rule conjI)
qed

theorem naive_cumfreq_formula_witness:
  "Flares_init [FlareDataset_init 1 4 [2, 3, 6], FlareDataset_init 2 6 [5, 7]] =
     Inr \<lparr>datasets = [FlareDataset_init 1 4 [2, 3, 6], FlareDataset_init 2 6 [5, 7]],
          n_total = 5, expt_total = 10, flare_e = [2, 3, 5, 6, 7],
          expt_detectable = [10, 10, 10, 10, 10],
          cumfreq_naive = [Fin (5 / 10), Fin (4 / 10), Fin (3 / 10), Fin (2 / 10), Fin (1 / 10)],
          cumfreq_corrected =
            [Fin (5 / 10), Fin (4 / 10), Fin (3 / 10), Fin (2 / 10), Fin (1 / 10)]\<rparr>
   \<and> (0::real) < 10"
proof -
  let ?F = "\<lparr>datasets = [FlareDataset_init 1 4 [2, 3, 6], FlareDataset_init 2 6 [5, 7]],
          n_total = 5, expt_total = 10, flare_e = [2, 3, 5, 6, 7],
          expt_detectable = [10, 10, 10, 10, 10],
          cumfreq_naive = [Fin (5 / 10), Fin (4 / 10), Fin (3 / 10), Fin (2 / 10), Fin (1 / 10)],
          cumfreq_corrected =
            [Fin (5 / 10), Fin (4 / 10), Fin (3 / 10), Fin (2 / 10), Fin (1 / 10)]\<rparr>"
  have h1: "Flares_init [FlareDataset_init 1 4 [2, 3, 6], FlareDataset_init 2 6 [5, 7]] = Inr ?F"
    by (simp add: init_defs upt_rec)
  have h2: "0 < expt_total ?F" by simp
  show ?thesis using h1 naive_cumfreq_formula [OF h1 h2] by simp
qed

subsection \<open>The corrected cumulative frequency\<close>

text \<open>
  Claim C7 says that the corrected cumulative frequency, computed by multiplying the running
  sum by the total exposure and dividing by it again, equals the plain top-down running sum
  of \<open>1 / detectable exposure\<close>. In float64 it does not: for dataset A (limit 1, exposure 5,
  event 2) and dataset B (limit 3, exposure 1, no events) the detectable exposure is 5 and
  the total exposure 6; the plain running sum is the float nearest 1/5,
  \<open>7205759403792794 / 2^55\<close>, and the constructor stores the next float up,
  \<open>7205759403792795 / 2^55\<close>.
\<close>

theorem rescaling_changes_last_bit:
  "Flares_init_f64 [FlareDataset_init 1 5 [2], FlareDataset_init 3 1 []] =
     Inr \<lparr>datasets = [FlareDataset_init 1 5 [2], FlareDataset_init 3 1 []],
          n_total = 1, expt_total = 6, flare_e = [2], expt_detectable = [5],
          cumfreq_naive = [Fin (6004799503160661 / 36028797018963968)],
          cumfreq_corrected = [Fin (7205759403792795 / 36028797018963968)]\<rparr>
   \<and> plain_running_sum_f64 [5] = [Fin (7205759403792794 / 36028797018963968)]"
  by (simp add: init_defs Flares_init_f64_def f64_defs Let_def upt_rec)

text \<open>
  Claim C7, amended. When the constructor returns, the corrected cumulative frequency at
  every index is the plain top-down float64 running sum of \<open>1 / detectable exposure\<close> at
  that index, multiplied by the total exposure and then divided by the total exposure,
  each of the two operations rounded to float64. (In exact arithmetic the two operations
  cancel, lemma \<open>corrected_eq_plain\<close>; in float64 the result can differ from the running
  sum, or overflow.)
\<close>

theorem corrected_is_rescaled_running_sum:
  assumes "Flares_init_f64 ds = Inr F"
  shows "cumfreq_corrected F =
     map (\<lambda>s. f64_div (f64_mul s (expt_total F)) (expt_total F))
       (plain_running_sum_f64 (expt_detectable F))"
  by (simp only: Flares_init_f64_fields(3) [OF assms] corrected_f64_eq)

theorem corrected_is_rescaled_running_sum_witness:
  "Flares_init_f64 [FlareDataset_init 1 3 [2, 7], FlareDataset_init 4 7 [5]] =
     Inr \<lparr>datasets = [FlareDataset_init 1 3 [2, 7], FlareDataset_init 4 7 [5]],
          n_total = 3, expt_total = 10, flare_e = [2, 5, 7],
          expt_detectable = [3, 10, 10],
          cumfreq_naive =
            [Fin (5404319552844595 / 18014398509481984),
             Fin (3602879701896397 / 18014398509481984),
             Fin (3602879701896397 / 36028797018963968)],
          cumfreq_corrected =
            [Fin (4803839602528529 / 9007199254740992),
             Fin (3602879701896397 / 18014398509481984),
             Fin (3602879701896397 / 36028797018963968)]\<rparr>
   \<and> map (\<lambda>s. f64_div (f64_mul s 10) 10) (plain_running_sum_f64 [3, 10, 10]) =
       [Fin (4803839602528529 / 9007199254740992),
        Fin (3602879701896397 / 18014398509481984),
        Fin (3602879701896397 / 36028797018963968)]"
proof -
  let ?F = "\<lparr>datasets = [FlareDataset_init 1 3 [2, 7], FlareDataset_init 4 7 [5]],
          n_total = 3, expt_total = 10, flare_e = [2, 5, 7],
          expt_detectable = [3, 10, 10],
          cumfreq_naive =
            [Fin (5404319552844595 / 18014398509481984),
             Fin (3602879701896397 / 18014398509481984),
             Fin (3602879701896397 / 36028797018963968)],
          cumfreq_corrected =
            [Fin (4803839602528529 / 9007199254740992),
             Fin (3602879701896397 / 18014398509481984),
             Fin (3602879701896397 / 36028797018963968)]\<rparr>"
  have h1: "Flares_init_f64 [FlareDataset_init 1 3 [2, 7], FlareDataset_init 4 7 [5]] = Inr ?F"
    by (simp add: init_defs Flares_init_f64_def f64_defs Let_def upt_rec)
  show ?thesis using h1 corrected_is_rescaled_running_sum [OF h1] by simp
qed

subsection \<open>A single dataset\<close>

text \<open>
  Claim C8 says that for a single dataset with a positive exposure time the corrected
  cumulative frequency equals the naive one entry by entry. In float64 it does not: for
  one dataset with exposure time 10 and three events, the first naive entry is the float
  nearest 3/10, \<open>5404319552844595 / 2^54\<close>, and the first corrected entry is the next
  float up, \<open>5404319552844596 / 2^54\<close>.
\<close>

theorem single_dataset_differs_in_float64:
  "Flares_init_f64 [FlareDataset_init 1 10 [2, 3, 4]] =
     Inr \<lparr>datasets = [FlareDataset_init 1 10 [2, 3, 4]],
          n_total = 3, expt_total = 10, flare_e = [2, 3, 4],
          expt_detectable = [10, 10, 10],
          cumfreq_naive =
            [Fin (5404319552844595 / 18014398509481984),
             Fin (3602879701896397 / 18014398509481984),
             Fin (3602879701896397 / 36028797018963968)],
          cumfreq_corrected =
            [Fin (5404319552844596 / 18014398509481984),
             Fin (3602879701896397 / 18014398509481984),
             Fin (3602879701896397 / 36028797018963968)]\<rparr>"
  by (simp add: init_defs Flares_init_f64_def f64_defs Let_def upt_rec)

text \<open>
  Claim C8, amended. For a single dataset, built by its constructor with a positive
  exposure time \<open>T\<close> and \<open>n\<close> events, every entry of the detectable exposure equals the
  total exposure, and there is one for every event. The naive cumulative frequency at
  index \<open>i\<close> is the float64 quotient of \<open>n - i\<close> by \<open>T\<close>; the corrected one is the float64
  running sum of \<open>n - i\<close> terms \<open>1 / T\<close>, multiplied by \<open>T\<close> and divided by \<open>T\<close>, each
  operation rounded. (In exact arithmetic both are \<open>(n - i) / T\<close>, lemma
  \<open>single_dataset_exact_arithmetic\<close>; in float64 they can differ.)
\<close>

theorem single_dataset_detectable_is_total:
  assumes "Flares_init_f64 [FlareDataset_init l t es] = Inr F" and "0 < t"
  shows "(\<forall>x \<in> set (expt_detectable F). x = expt_total F) \<and>
         length (expt_detectable F) = length es \<and>
         cumfreq_naive F =
           map (\<lambda>i. f64_div (f64_round (real (length es - i))) t) [0..<length es] \<and>
         cumfreq_corrected F =
           map (\<lambda>s. f64_div (f64_mul s t) t)
             (plain_running_sum_f64 (replicate (length es) t))"
proof -
  note f = Flares_init_f64_fields [OF assms(1)]
  have T: "expt_total F = t" by (simp add: f(5) FlareDataset_init_def)
  have n: "n_total F = length es" by (simp add: f(4) FlareDataset_init_def)
  have "expt_detectable F = map (\<lambda>v. t) (flare_e F)"
    by (simp add: f(7) lookup_value_single FlareDataset_init_def)
  moreover have "length (flare_e F) = length es"
    by (simp add: f(6) FlareDataset_init_def)
  ultimately have ed: "expt_detectable F = replicate (length es) t"
    by (simp add: map_replicate_const)
  have a: "\<forall>x \<in> set (expt_detectable F). x = expt_total F" by (simp add: ed T)
  have b: "length (expt_detectable F) = length es" by (simp add: ed)
  have c: "cumfreq_naive F =
      map (\<lambda>i. f64_div (f64_round (real (length es - i))) t) [0..<length es]"
    by (simp only: f(2) n T naive_f64_eq)
  have d: "cumfreq_corrected F =
      map (\<lambda>s. f64_div (f64_mul s t) t) (plain_running_sum_f64 (replicate (length es) t))"
    by (simp only: f(3) ed T corrected_f64_eq)
  from a b c d show ?thesis by blast
qed

theorem single_dataset_detectable_is_total_witness:
  "Flares_init_f64 [FlareDataset_init 1 8 [3, 2]] =
     Inr \<lparr>datasets = [FlareDataset_init 1 8 [3, 2]],
          n_total = 2, expt_total = 8, flare_e = [2, 3],
          expt_detectable = [8, 8],
          cumfreq_naive = [Fin (1 / 4), Fin (1 / 8)],
          cumfreq_corrected = [Fin (1 / 4), Fin (1 / 8)]\<rparr>
   \<and> (0::real) < 8"
proof -
  let ?F = "\<lparr>datasets = [FlareDataset_init 1 8 [3, 2]],
          n_total = 2, expt_total = 8, flare_e = [2, 3],
          expt_detectable = [8, 8],
          cumfreq_naive = [Fin (1 / 4), Fin (1 / 8)],
          cumfreq_corrected = [Fin (1 / 4), Fin (1 / 8)]\<rparr>"
  have h1: "Flares_init_f64 [FlareDataset_init 1 8 [3, 2]] = Inr ?F"
    by (simp add: init_defs Flares_init_f64_def f64_defs Let_def upt_rec)
  have h2: "(0::real) < 8" by simp
  show ?thesis using h1 h2 single_dataset_detectable_is_total [OF h1 h2] by simp
qed

subsection \<open>Datasets without events\<close>

text \<open>
  Claim C10. For a non-empty list of datasets, each built by the constructor with an empty
  sequence of events, the aggregate constructor raises nothing and returns an object with
  a total count of 0 whose energies, detectable exposures, naive and corrected cumulative
  frequencies are all the empty array.
\<close>

theorem no_events_empty_arrays:
  assumes "ds \<noteq> []"
    and "\<forall>d \<in> set ds. d = FlareDataset_init (elim d) (expt d) []"
  shows "Flares_init ds =
     Inr \<lparr>datasets = ds, n_total = 0, expt_total = sum_list (map expt ds),
          flare_e = [], expt_detectable = [],
          cumfreq_naive = [], cumfreq_corrected = []\<rparr>"
proof -
  have e: "data_e d = []" and n: "data_n d = 0" if "d \<in> set ds" for d
  proof -
    from that assms(2) have d: "d = FlareDataset_init (elim d) (expt d) []" by blast
    have "data_e (FlareDataset_init (elim d) (expt d) []) = []"
      by (simp add: FlareDataset_init_def)
    with d show "data_e d = []" by simp
    have "data_n (FlareDataset_init (elim d) (expt d) []) = 0"
      by (simp add: FlareDataset_init_def)
    with d show "data_n d = 0" by simp
  qed
  from e have c: "concat (map data_e ds) = []" by simp
  from n have s: "sum_list (map data_n ds) = 0" by simp
  show ?thesis
    by (simp add: Flares_init_nonempty [OF assms(1)] c s naive_0 corrected_Nil)
qed

theorem no_events_empty_arrays_witness:
  "[FlareDataset_init 1 100 [], FlareDataset_init 3 50 []] \<noteq> []
   \<and> Flares_init [FlareDataset_init 1 100 [], FlareDataset_init 3 50 []] =
     Inr \<lparr>datasets = [FlareDataset_init 1 100 [], FlareDataset_init 3 50 []],
          n_total = 0, expt_total = 150, flare_e = [], expt_detectable = [],
          cumfreq_naive = [], cumfreq_corrected = []\<rparr>"
proof -
  let ?ds = "[FlareDataset_init 1 100 [], FlareDataset_init 3 50 []]"
  have h1: "?ds \<noteq> []" by simp
  have h2: "\<forall>d \<in> set ?ds. d = FlareDataset_init (elim d) (expt d) []"
    by (simp add: FlareDataset_init_def)
  have h3: "sum_list (map expt ?ds) = 150" by (simp add: FlareDataset_init_def)
  show ?thesis using h1 no_events_empty_arrays [OF h1 h2] by (simp only: h3 simp_thms)
qed

subsection \<open>An event below every detection limit\<close>

text \<open>
  Claim C2 says that an input with an event strictly below every detection limit makes the
  constructor raise. It does not: for one dataset with detection limit 3, exposure time 50
  and the single event 2 the constructor returns an object (whose detectable exposure for
  that event is 50).
\<close>

theorem below_every_limit_counterexample:
  "Flares_init [FlareDataset_init 3 50 [2]] =
     Inr \<lparr>datasets = [FlareDataset_init 3 50 [2]],
          n_total = 1, expt_total = 50, flare_e = [2], expt_detectable = [50],
          cumfreq_naive = [Fin (1 / 50)], cumfreq_corrected = [Fin (1 / 50)]\<rparr>"
  by (simp add: init_defs Let_def)

text \<open>
  Claim C2, amended. For every input in which some event lies strictly below every
  dataset's detection limit, the constructor raises no error: it returns an object, the
  event is among its energies, and the detectable exposure has one entry for every energy.
\<close>

theorem below_every_limit_no_error:
  assumes "v \<in> set (concat (map data_e ds))" and "\<forall>d \<in> set ds. v < elim d"
  shows "\<exists>F. Flares_init ds = Inr F \<and> v \<in> set (flare_e F) \<and>
             length (expt_detectable F) = length (flare_e F)"
proof -
  from assms(1) have ne: "ds \<noteq> []" by auto
  from assms(1) have "v \<in> set (sort (concat (map data_e ds)))" by simp
  then show ?thesis by (simp add: Flares_init_nonempty [OF ne])
qed

theorem below_every_limit_no_error_witness:
  "(2::real) \<in> set (concat (map data_e [FlareDataset_init 3 50 [4, 2], FlareDataset_init 5 10 []]))
   \<and> (2::real) < 3 \<and> (2::real) < 5
   \<and> Flares_init [FlareDataset_init 3 50 [4, 2], FlareDataset_init 5 10 []] \<noteq> Inl ValueError
   \<and> Flares_init [FlareDataset_init 3 50 [4, 2], FlareDataset_init 5 10 []] \<noteq> Inl IndexError"
proof -
  let ?ds = "[FlareDataset_init 3 50 [4, 2], FlareDataset_init 5 10 []]"
  have h1: "(2::real) \<in> set (concat (map data_e ?ds))" by (simp add: FlareDataset_init_def)
  have h2: "\<forall>d \<in> set ?ds. (2::real) < elim d" by (simp add: FlareDataset_init_def)
  show ?thesis using h1 below_every_limit_no_error [OF h1 h2] by auto
qed

subsection \<open>A total exposure of zero\<close>

text \<open>
  Claim C3 says that a non-empty list of datasets whose exposure times sum to zero makes the
  constructor raise. It does not: for one dataset with exposure time 0 and one event the
  constructor returns an object whose two frequency arrays hold a non-finite value.
\<close>

theorem zero_exposure_counterexample:
  "Flares_init [FlareDataset_init 1 0 [2]] =
     Inr \<lparr>datasets = [FlareDataset_init 1 0 [2]],
          n_total = 1, expt_total = 0, flare_e = [2], expt_detectable = [0],
          cumfreq_naive = [NonFinite], cumfreq_corrected = [NonFinite]\<rparr>"
  by (simp add: init_defs Let_def)

text \<open>
  Claim C3, amended. For every non-empty list of datasets whose exposure times sum to zero
  the constructor raises no error: it returns an object, and every entry of its naive
  and of its corrected cumulative frequency is a non-finite value (infinite or NaN).
\<close>

theorem zero_exposure_non_finite:
  assumes "ds \<noteq> []" and "sum_list (map expt ds) = 0"
  shows "\<exists>F. Flares_init ds = Inr F \<and>
             (\<forall>x \<in> set (cumfreq_naive F). x = NonFinite) \<and>
             (\<forall>x \<in> set (cumfreq_corrected F). x = NonFinite)"
proof -
  have a: "\<forall>x \<in> set (naive k 0). x = NonFinite" for k
    by (simp add: naive_eq)
  have b: "\<forall>x \<in> set (corrected ed 0). x = NonFinite" for ed
    by (auto simp: corrected_def np_div_zero)
  show ?thesis
    using a b by (simp add: Flares_init_nonempty [OF assms(1)] assms(2))
qed

theorem zero_exposure_non_finite_witness:
  "[FlareDataset_init 1 5 [2, 3], FlareDataset_init 2 (- 5) [4]] \<noteq> []
   \<and> sum_list (map expt [FlareDataset_init 1 5 [2, 3], FlareDataset_init 2 (- 5) [4]]) = 0
   \<and> Flares_init [FlareDataset_init 1 5 [2, 3], FlareDataset_init 2 (- 5) [4]] \<noteq> Inl ValueError
   \<and> Flares_init [FlareDataset_init 1 5 [2, 3], FlareDataset_init 2 (- 5) [4]] \<noteq> Inl IndexError"
proof -
  let ?ds = "[FlareDataset_init 1 5 [2, 3], FlareDataset_init 2 (- 5) [4]]"
  have h1: "?ds \<noteq> []" by simp
  have h2: "sum_list (map expt ?ds) = 0" by (simp add: FlareDataset_init_def)
  show ?thesis using h1 h2 zero_exposure_non_finite [OF h1 h2] by auto
qed

subsection \<open>The detectable exposure at an uncovered event\<close>

text \<open>
  Claim C5 says that every entry of the detectable exposure is the sum of the exposure
  times of exactly the datasets whose detection limit is at most the event's energy. The
  constructor evaluated at dataset A (limit 1, exposure 100, events 1/2 and 2) and dataset
  B (limit 3, exposure 50, no events): the event 1/2 is below both limits, the sum over the
  datasets that cover it is 0, and the constructor gives it the detectable exposure 150.
\<close>

theorem detectable_exposure_wraps:
  "Flares_init [FlareDataset_init 1 100 [1 / 2, 2], FlareDataset_init 3 50 []] =
     Inr \<lparr>datasets = [FlareDataset_init 1 100 [1 / 2, 2], FlareDataset_init 3 50 []],
          n_total = 2, expt_total = 150, flare_e = [1 / 2, 2],
          expt_detectable = [150, 100],
          cumfreq_naive = [Fin (2 / 150), Fin (1 / 150)],
          cumfreq_corrected = [Fin (1 / 150 + 1 / 100), Fin (1 / 100)]\<rparr>
   \<and> covered_exposure [FlareDataset_init 1 100 [1 / 2, 2], FlareDataset_init 3 50 []] (1 / 2) = 0"
  by (simp add: init_defs Let_def covered_exposure_def upt_rec)

text \<open>
  Claim C9 says that the detectable exposure never decreases along the array when the
  detection limits are distinct. The constructor evaluated at dataset A (limit 2,
  exposure 10, events 1 and 3) and dataset B (limit 4, exposure 20, event 5): the limits
  are distinct, and the detectable exposures are 30, 10, 30.
\<close>

theorem detectable_exposure_decreases:
  "Flares_init [FlareDataset_init 2 10 [1, 3], FlareDataset_init 4 20 [5]] =
     Inr \<lparr>datasets = [FlareDataset_init 2 10 [1, 3], FlareDataset_init 4 20 [5]],
          n_total = 3, expt_total = 30, flare_e = [1, 3, 5],
          expt_detectable = [30, 10, 30],
          cumfreq_naive = [Fin (3 / 30), Fin (2 / 30), Fin (1 / 30)],
          cumfreq_corrected = [Fin (1 / 30 + 1 / 10 + 1 / 30), Fin (1 / 30 + 1 / 10), Fin (1 / 30)]\<rparr>
   \<and> distinct (map elim [FlareDataset_init 2 10 [1, 3], FlareDataset_init 4 20 [5]])
   \<and> \<not> sorted [30, 10, 30 :: real]"
  by (simp add: init_defs Let_def upt_rec)

end
